theory Spec2Isabelle
  imports Main
begin

section \<open>Values of the fixture data\<close>

text \<open>
  The fixture payloads of \<^verbatim>\<open>act4e_checks/data.py\<close> are the nested values a YAML
  document loads to; \<^verbatim>\<open>check_good_output\<close> also meets tuples and objects of other
  classes. A mapping is kept as an association list in insertion order (a Python
  \<^verbatim>\<open>dict\<close> holds each key once), a sequence as a list. A float and a timestamp are
  carried by their literal, since the code never computes with them. \<open>VObj n\<close> is an
  object of any other class, named \<open>n\<close>, hashable and not iterable.
\<close>

datatype val =
    VNone
  | VBool bool
  | VInt int
  | VFloat string
  | VStr string
  | VDatetime string
  | VTuple "val list"
  | VList "val list"
  | VDict "(val \<times> val) list"
  | VObj string

text \<open>
  The errors the corpus construction raises: each \<^verbatim>\<open>ZValueError\<close> of the source with
  the payload it is given, and the \<^verbatim>\<open>TypeError\<close> Python raises on an unhashable key
  or a value that cannot be iterated. \<open>InContext k e\<close> is the error \<open>e\<close> raised under
  \<^verbatim>\<open>add_context(k=k)\<close>.
\<close>

datatype err =
    DuplicateKey string string
  | MissingData string "(val \<times> val) list"
  | UnknownProperties "(val \<times> val) list" "(val \<times> val) list"
  | ExtraRequires string "val set" "val set"
  | ExtraProperties "val set"
  | ExtraTags "val set"
  | CannotFindEntry val
  | TypeError string
  | InContext string err

fun hashable :: "val \<Rightarrow> bool" where
  "hashable (VList xs) = False"
| "hashable (VDict kvs) = False"
| "hashable (VTuple xs) = list_all hashable xs"
| "hashable a = True"

section \<open>Reference resolution: \<^verbatim>\<open>substitute\<close>\<close>

text \<open>
  \<^verbatim>\<open>substitute(entries, a)\<close>, lines 160-175. The dict comprehension and the list
  comprehension are the two auxiliary functions; they stop at the first element whose
  resolution raises. \<^verbatim>\<open>loadit not in entries\<close> hashes \<^verbatim>\<open>loadit\<close>, so an unhashable
  value raises \<^verbatim>\<open>TypeError\<close>; the keys of \<^verbatim>\<open>entries\<close> are strings, so any other
  hashable value is absent.
\<close>

fun substitute :: "(string \<rightharpoonup> val) \<Rightarrow> val \<Rightarrow> err + val"
  and substitute_items ::
    "(string \<rightharpoonup> val) \<Rightarrow> (val \<times> val) list \<Rightarrow> err + (val \<times> val) list"
  and substitute_elems :: "(string \<rightharpoonup> val) \<Rightarrow> val list \<Rightarrow> err + val list"
where
  "substitute entries (VDict a) =
     (case map_of a (VStr ''load'') of
        Some loadit \<Rightarrow>
          (if \<not> hashable loadit then Inl (TypeError ''unhashable type'')
           else (case loadit of
                   VStr s \<Rightarrow> (case entries s of
                                None \<Rightarrow> Inl (CannotFindEntry (VDict a))
                              | Some v \<Rightarrow> Inr v)
                 | _ \<Rightarrow> Inl (CannotFindEntry (VDict a))))
      | None \<Rightarrow>
          (case substitute_items entries a of
             Inl e \<Rightarrow> Inl e
           | Inr a' \<Rightarrow> Inr (VDict a')))"
| "substitute entries (VList a) =
     (case substitute_elems entries a of
        Inl e \<Rightarrow> Inl e
      | Inr a' \<Rightarrow> Inr (VList a'))"
| "substitute entries a = Inr a"
| "substitute_items entries [] = Inr []"
| "substitute_items entries ((k, v) # kvs) =
     (case substitute entries v of
        Inl e \<Rightarrow> Inl e
      | Inr v' \<Rightarrow>
          (case substitute_items entries kvs of
             Inl e \<Rightarrow> Inl e
           | Inr kvs' \<Rightarrow> Inr ((k, v') # kvs')))"
| "substitute_elems entries [] = Inr []"
| "substitute_elems entries (x # xs) =
     (case substitute entries x of
        Inl e \<Rightarrow> Inl e
      | Inr x' \<Rightarrow>
          (case substitute_elems entries xs of
             Inl e \<Rightarrow> Inl e
           | Inr xs' \<Rightarrow> Inr (x' # xs')))"

section \<open>Corpus construction: \<^verbatim>\<open>get_all_test_data\<close>\<close>

text \<open>The dataclass \<^verbatim>\<open>TestData\<close>, lines 20-25. Python does not check the field types.\<close>

record TestData =
  tags :: val
  requires :: val
  data :: val
  properties :: val

type_synonym pydict = "(val \<times> val) list"
type_synonym corpus = "(string \<times> TestData) list"

text \<open>The three whitelists, lines 28-74: Python sets of strings.\<close>

definition ALLOWED_TAGS :: "val set" where
  "ALLOWED_TAGS =
     {VStr ''poset'', VStr ''set'', VStr ''semigroup'', VStr ''monoid'', VStr ''group'',
      VStr ''relation'', VStr ''map'', VStr ''dp'', VStr ''category'',
      VStr ''natural_transform''}"

definition ALLOWED_PROPERTIES :: "val set" where
  "ALLOWED_PROPERTIES =
     {VStr ''powerset'', VStr ''some_antichains'', VStr ''some_not_antichains'',
      VStr ''some_chains'', VStr ''some_not_chains'', VStr ''surjective'',
      VStr ''defined_everywhere'', VStr ''single_valued'', VStr ''injective'',
      VStr ''reflexive'', VStr ''irreflexive'', VStr ''transitive'', VStr ''asymmetric'',
      VStr ''symmetric'', VStr ''antisymmetric'', VStr ''has_top'', VStr ''height'',
      VStr ''width'', VStr ''has_bottom'', VStr ''top'', VStr ''opposite'', VStr ''bottom'',
      VStr ''lattice'', VStr ''some_not_uppersets'', VStr ''some_lowersets'',
      VStr ''some_uppersets'', VStr ''some_not_lowersets''}"

definition ALLOWED_REQUIRES :: "val set" where
  "ALLOWED_REQUIRES =
     {VStr ''set_product'', VStr ''poset_product'', VStr ''set_union'', VStr ''poset_sum''}"

text \<open>
  \<^verbatim>\<open>vv.pop(key, default)\<close>: the value stored under the key, if any, and the mapping
  without it.
\<close>

definition pop :: "val \<Rightarrow> pydict \<Rightarrow> val option \<times> pydict" where
  "pop key vv = (map_of vv key, filter (\<lambda>(k, _). k \<noteq> key) vv)"

text \<open>
  \<^verbatim>\<open>set(x)\<close>: the keys of a mapping, the elements of a list or a tuple (which must be
  hashable), the characters of a string; any other value is not iterable.
\<close>

fun py_set :: "val \<Rightarrow> err + val set" where
  "py_set (VDict kvs) = Inr (set (map fst kvs))"
| "py_set (VList xs) =
     (if list_all hashable xs then Inr (set xs) else Inl (TypeError ''unhashable type''))"
| "py_set (VTuple xs) =
     (if list_all hashable xs then Inr (set xs) else Inl (TypeError ''unhashable type''))"
| "py_set (VStr s) = Inr (set (map (\<lambda>c. VStr [c]) s))"
| "py_set x = Inl (TypeError ''object is not iterable'')"

text \<open>
  The body of the loop over the items of one file, lines 120-150, for the key \<open>k\<close> and
  the raw record \<open>v\<close> (a mapping): the four fields are popped, leftover fields are
  refused, then the key sets of \<^verbatim>\<open>requires\<close>, \<^verbatim>\<open>properties\<close> and \<^verbatim>\<open>tags\<close> are
  compared with their whitelists, in this order.
\<close>

definition make_TestData :: "string \<Rightarrow> pydict \<Rightarrow> err + TestData" where
  "make_TestData k v =
     (let (tags_opt, vv1) = pop (VStr ''tags'') v;
          tgs = (case tags_opt of None \<Rightarrow> VDict [] | Some t \<Rightarrow> t)
      in case pop (VStr ''data'') vv1 of
           (None, _) \<Rightarrow> Inl (MissingData k v)
         | (Some dat, vv2) \<Rightarrow>
             (let (requires_opt, vv3) = pop (VStr ''requires'') vv2;
                  reqs = (case requires_opt of None \<Rightarrow> VDict [] | Some r \<Rightarrow> r);
                  (properties_opt, vv4) = pop (VStr ''properties'') vv3;
                  props = (case properties_opt of None \<Rightarrow> VDict [] | Some p \<Rightarrow> p)
              in if vv4 \<noteq> [] then Inl (UnknownProperties v vv4)
                 else (case py_set reqs of
                         Inl e \<Rightarrow> Inl e
                       | Inr rs \<Rightarrow>
                           if rs - ALLOWED_REQUIRES \<noteq> {}
                           then Inl (ExtraRequires k (rs - ALLOWED_REQUIRES) ALLOWED_REQUIRES)
                           else (case py_set props of
                                   Inl e \<Rightarrow> Inl e
                                 | Inr ps \<Rightarrow>
                                     if ps - ALLOWED_PROPERTIES \<noteq> {}
                                     then Inl (ExtraProperties (ps - ALLOWED_PROPERTIES))
                                     else (case py_set tgs of
                                             Inl e \<Rightarrow> Inl e
                                           | Inr ts \<Rightarrow>
                                               if ts - ALLOWED_TAGS \<noteq> {}
                                               then Inl (ExtraTags (ts - ALLOWED_TAGS))
                                               else Inr \<lparr>tags = tgs, requires = reqs,
                                                         data = dat, properties = props\<rparr>)))))"

text \<open>
  The loop over the items of the file \<open>fn\<close>, lines 114-150, on the accumulated result
  \<open>res\<close>: a key already in \<open>res\<close> is refused before its record is looked at.
\<close>

fun load_items :: "string \<Rightarrow> (string \<times> pydict) list \<Rightarrow> corpus \<Rightarrow> err + corpus" where
  "load_items fn [] res = Inr res"
| "load_items fn ((k, v) # d) res =
     (if k \<in> fst ` set res then Inl (DuplicateKey k fn)
      else (case make_TestData k v of
              Inl e \<Rightarrow> Inl e
            | Inr td \<Rightarrow> load_items fn d (res @ [(k, td)])))"

text \<open>The loop over the files, lines 109-150; each file is its name and its parsed items.\<close>

fun load_files :: "(string \<times> (string \<times> pydict) list) list \<Rightarrow> corpus \<Rightarrow> err + corpus" where
  "load_files [] res = Inr res"
| "load_files ((fn, d) # yamls) res =
     (case load_items fn d res of
        Inl e \<Rightarrow> Inl e
      | Inr res' \<Rightarrow> load_files yamls res')"

text \<open>
  Lines 152-155: \<^verbatim>\<open>entries\<close> is built once from the data just loaded, then every
  record's data is replaced by its substitution against \<^verbatim>\<open>entries\<close>.
\<close>

definition entries_of :: "corpus \<Rightarrow> (string \<rightharpoonup> val)" where
  "entries_of res = map_of (map (\<lambda>(k, v). (k, data v)) res)"

fun substitute_all :: "(string \<rightharpoonup> val) \<Rightarrow> corpus \<Rightarrow> err + corpus" where
  "substitute_all entries [] = Inr []"
| "substitute_all entries ((k, v) # res) =
     (case substitute entries (data v) of
        Inl e \<Rightarrow> Inl (InContext k e)
      | Inr a \<Rightarrow>
          (case substitute_all entries res of
             Inl e \<Rightarrow> Inl e
           | Inr res' \<Rightarrow> Inr ((k, v\<lparr>data := a\<rparr>) # res')))"

text \<open>
  \<^verbatim>\<open>get_all_test_data\<close>, lines 91-157, from the parsed files on: the choice of the
  directory, the listing of its files and the YAML parser are the environment, so the
  function takes the list of the files read, each with the items of its top-level mapping.
\<close>

definition get_all_test_data :: "(string \<times> (string \<times> pydict) list) list \<Rightarrow> err + corpus" where
  "get_all_test_data yamls =
     (case load_files yamls [] of
        Inl e \<Rightarrow> Inl e
      | Inr res \<Rightarrow> substitute_all (entries_of res) res)"

section \<open>Selection by requirement: \<^verbatim>\<open>filter_reqs\<close>\<close>

text \<open>
  \<^verbatim>\<open>filter_reqs(d, req)\<close>, lines 296-303. \<^verbatim>\<open>set(v.requires)\<close> raises on a value that
  cannot be iterated, at the first such record.
\<close>

fun filter_reqs :: "corpus \<Rightarrow> string \<Rightarrow> err + corpus" where
  "filter_reqs [] req = Inr []"
| "filter_reqs ((k, v) # d) req =
     (case py_set (requires v) of
        Inl e \<Rightarrow> Inl e
      | Inr rs \<Rightarrow>
          (case filter_reqs d req of
             Inl e \<Rightarrow> Inl e
           | Inr res \<Rightarrow> Inr (if rs = {VStr req} then (k, v) # res else res)))"

section \<open>The test context and the output check\<close>

text \<open>
  The failures the harness records, one constructor for each call of \<^verbatim>\<open>tc.fail\<close>
  and \<^verbatim>\<open>tc.expect_type2\<close> in the source, with the names and values put into the
  message; the captured traceback text is left out. \<open>'o\<close> is the type of the objects
  of the implementation under test.
\<close>

datatype 'o failure =
    TuplesNotSerializable val
  | DisallowedDatatype string val
  | SaveRaised string 'o
  | SaveReturnedNone string 'o
  | LoadThrewInvalidFormat string val
  | LoadThrew string string val
  | ExpectedType string string 'o

text \<open>
  \<^verbatim>\<open>TestContext\<close> comes from the library \<^verbatim>\<open>zuper_testint\<close>. Modelled from the spec:
  failures accumulate in the test context (\<^verbatim>\<open>fail\<close>), \<^verbatim>\<open>expect_type2\<close> records one
  when the value is not of the expected type, and \<^verbatim>\<open>raise_if_failures\<close> raises
  \<^verbatim>\<open>ImplementationFail\<close> when any failure has been recorded.
\<close>

record 'o TestContext =
  failures :: "'o failure list"

definition fail :: "'o TestContext \<Rightarrow> 'o failure \<Rightarrow> 'o TestContext" where
  "fail tc f = tc\<lparr>failures := failures tc @ [f]\<rparr>"

definition expect_type2 ::
  "'o TestContext \<Rightarrow> 'o \<Rightarrow> ('o \<Rightarrow> bool) \<Rightarrow> 'o failure \<Rightarrow> 'o TestContext" where
  "expect_type2 tc res K f = (if K res then tc else fail tc f)"

fun type_name :: "val \<Rightarrow> string" where
  "type_name VNone = ''NoneType''"
| "type_name (VBool b) = ''bool''"
| "type_name (VInt i) = ''int''"
| "type_name (VFloat f) = ''float''"
| "type_name (VStr s) = ''str''"
| "type_name (VDatetime t) = ''datetime''"
| "type_name (VTuple xs) = ''tuple''"
| "type_name (VList xs) = ''list''"
| "type_name (VDict kvs) = ''dict''"
| "type_name (VObj n) = n"

text \<open>\<^verbatim>\<open>isinstance(x, tuple)\<close> and \<^verbatim>\<open>isinstance(x, OK)\<close> of lines 272-281.\<close>

fun is_tuple :: "val \<Rightarrow> bool" where
  "is_tuple (VTuple xs) = True"
| "is_tuple x = False"

fun is_OK :: "val \<Rightarrow> bool" where
  "is_OK VNone = False"
| "is_OK (VTuple xs) = False"
| "is_OK (VObj n) = False"
| "is_OK x = True"

text \<open>
  \<^verbatim>\<open>check_good_output(tc, x)\<close>, lines 271-293; the two \<^verbatim>\<open>for\<close> loops are the two
  auxiliary functions.
\<close>

fun check_good_output :: "'o TestContext \<Rightarrow> val \<Rightarrow> 'o TestContext"
  and check_elems :: "'o TestContext \<Rightarrow> val list \<Rightarrow> 'o TestContext"
  and check_values :: "'o TestContext \<Rightarrow> (val \<times> val) list \<Rightarrow> 'o TestContext"
where
  "check_good_output tc x =
     (if is_tuple x then fail tc (TuplesNotSerializable x)
      else if \<not> is_OK x then fail tc (DisallowedDatatype (type_name x) x)
      else (case x of
              VList xs \<Rightarrow> check_elems tc xs
            | VDict kvs \<Rightarrow> check_values tc kvs
            | _ \<Rightarrow> tc))"
| "check_elems tc [] = tc"
| "check_elems tc (y # ys) = check_elems (check_good_output tc y) ys"
| "check_values tc [] = tc"
| "check_values tc ((k, v) # kvs) = check_values (check_good_output tc v) kvs"

section \<open>The save and load verbs\<close>

text \<open>
  An exception is the name of its class and the names of the classes it inherits from.
  Every exception Python can raise is an instance of \<^verbatim>\<open>BaseException\<close>.
\<close>

datatype exn = Exn (cls: string) (bases: "string list")

definition isinstance :: "exn \<Rightarrow> string \<Rightarrow> bool" where
  "isinstance e c = (c = cls e \<or> c \<in> set (bases e) \<or> c = ''BaseException'')"

text \<open>
  What a verb raises: the exception of the capability itself, or
  \<^verbatim>\<open>ImplementationFail\<close> with its cause (\<^verbatim>\<open>raise ... from e\<close>), if any.
\<close>

datatype raised = Propagated exn | ImplementationFail "exn option"

text \<open>
  \<^verbatim>\<open>dumpit_(tc, fsr, h, ob)\<close>, lines 235-249. \<open>KN\<close> is the name of the saver's class,
  \<open>save\<close> is \<^verbatim>\<open>fsr.save\<close> with the helper \<open>h\<close> supplied: it returns raw data or raises.
  (A constant's name cannot end in an underscore, hence \<open>dumpit\<close> and \<open>loadit\<close>.)
\<close>

definition dumpit ::
  "'o TestContext \<Rightarrow> string \<Rightarrow> ('o \<Rightarrow> exn + val) \<Rightarrow> 'o \<Rightarrow> 'o TestContext \<times> (raised + val)" where
  "dumpit tc KN save ob =
     (case save ob of
        Inl e \<Rightarrow>
          if isinstance e ''Exception''
          then (fail tc (SaveRaised KN ob), Inl (ImplementationFail (Some e)))
          else (tc, Inl (Propagated e))
      | Inr res \<Rightarrow>
          if res = VNone
          then (fail tc (SaveReturnedNone KN ob), Inl (ImplementationFail None))
          else (let tc' = check_good_output tc res
                in if failures tc' \<noteq> [] then (tc', Inl (ImplementationFail None))
                   else (tc', Inr res)))"

text \<open>
  \<^verbatim>\<open>loadit_(tc, loader, h, data, K)\<close>, lines 252-268. \<open>LN\<close> is the name of the loader's
  class, \<open>load\<close> is \<^verbatim>\<open>loader.load\<close> with the helper supplied, \<open>KN\<close> and \<open>K\<close> are the
  name of the expected class and its instance test. The three \<^verbatim>\<open>except\<close> clauses are
  tried in the order of the source.
\<close>

definition loadit ::
  "'o TestContext \<Rightarrow> string \<Rightarrow> (val \<Rightarrow> exn + 'o) \<Rightarrow> val \<Rightarrow> string \<Rightarrow> ('o \<Rightarrow> bool)
     \<Rightarrow> 'o TestContext \<times> (raised + 'o)" where
  "loadit tc LN load dat KN K =
     (case load dat of
        Inl e \<Rightarrow>
          if isinstance e ''NotImplementedError'' then (tc, Inl (Propagated e))
          else if isinstance e ''InvalidFormat''
          then (fail tc (LoadThrewInvalidFormat LN dat), Inl (ImplementationFail (Some e)))
          else if isinstance e ''BaseException''
          then (fail tc (LoadThrew LN (cls e) dat), Inl (ImplementationFail (Some e)))
          else (tc, Inl (Propagated e))
      | Inr res \<Rightarrow>
          (let tc' = expect_type2 tc res K (ExpectedType LN KN res)
           in if failures tc' \<noteq> [] then (tc', Inl (ImplementationFail None))
              else (tc', Inr res)))"

section \<open>Auxiliary notions for the statements\<close>

text \<open>
  \<open>loaded kv ktd\<close>: the corpus item \<open>ktd\<close> is what the loop body makes of the raw item
  \<open>kv\<close> of a file.
\<close>

definition loaded :: "string \<times> pydict \<Rightarrow> string \<times> TestData \<Rightarrow> bool" where
  "loaded kv ktd \<longleftrightarrow> fst ktd = fst kv \<and> make_TestData (fst kv) (snd kv) = Inr (snd ktd)"


text \<open>
  The lookup source as it is in the files: the raw \<^verbatim>\<open>data\<close> field of the record read
  under each key, before any substitution.
\<close>

definition raw_entries :: "(string \<times> (string \<times> pydict) list) list \<Rightarrow> (string \<rightharpoonup> val)" where
  "raw_entries yamls k =
     (case map_of (concat (map snd yamls)) k of
        None \<Rightarrow> None
      | Some v \<Rightarrow> map_of v (VStr ''data''))"

text \<open>
  \<open>revalue f m\<close>: the mapping \<open>m\<close> with the value under each key \<open>key\<close> replaced by
  \<open>f key\<close> of it, the keys and their order kept; any other value is left as it is.
\<close>

fun revalue :: "(val \<Rightarrow> val \<Rightarrow> val) \<Rightarrow> val \<Rightarrow> val" where
  "revalue f (VDict kvs) = VDict (map (\<lambda>(key, b). (key, f key b)) kvs)"
| "revalue f x = x"

section \<open>Properties of \<^verbatim>\<open>substitute\<close>\<close>

lemma substitute_items_Inr:
  "substitute_items e kvs = Inr kvs' \<longleftrightarrow>
     map fst kvs' = map fst kvs \<and>
     list_all2 (\<lambda>v v'. substitute e v = Inr v') (map snd kvs) (map snd kvs')"
proof (induction kvs arbitrary: kvs')
  case Nil
  then show ?case by auto
next
  case (Cons p kvs)
  obtain k v where p: "p = (k, v)" by (cases p)
  show ?case
  proof (cases kvs')
    case Nil
    then show ?thesis by (simp add: p split: sum.splits)
  next
    case (Cons q rest)
    obtain k' v' where q: "q = (k', v')" by (cases q)
    show ?thesis using Cons.IH [of rest]
      by (cases "substitute e v"; cases "substitute_items e kvs") (auto simp: p q Cons)
  qed
qed

lemma substitute_elems_Inr:
  "substitute_elems e xs = Inr ys \<longleftrightarrow> list_all2 (\<lambda>x y. substitute e x = Inr y) xs ys"
proof (induction xs arbitrary: ys)
  case Nil
  then show ?case by auto
next
  case (Cons x xs)
  show ?case
    by (cases ys) (auto simp: Cons.IH [symmetric] split: sum.splits)
qed

lemma substitute_load_entry:
  "map_of a (VStr ''load'') = Some (VStr X) \<Longrightarrow> entries X = Some v \<Longrightarrow>
     substitute entries (VDict a) = Inr v"
  by simp

text \<open>
  C1. For every corpus \<open>entries\<close> and every key \<open>X\<close> present in it, \<^verbatim>\<open>substitute\<close> on a
  mapping node whose key \<^verbatim>\<open>"load"\<close> holds \<open>X\<close> returns \<open>entries[X]\<close> as it is stored:
  the value is neither copied nor resolved further, and whatever else the node \<open>a\<close> holds
  under other keys plays no part in the result. (In this embedding an object is its value,
  so "the very same object" is the equality of the result with the stored value.)
\<close>

theorem substitute_load_returns_entry:
  assumes "map_of a (VStr ''load'') = Some (VStr X)"
    and "entries X = Some v"
  shows "substitute entries (VDict a) = Inr v"
  using assms by (rule substitute_load_entry)

theorem substitute_load_returns_entry_witness:
  "map_of [(VStr ''other'', VDict [(VStr ''load'', VStr ''missing'')]),
           (VStr ''load'', VStr ''X'')] (VStr ''load'') = Some (VStr ''X'') \<and>
   [''X'' \<mapsto> VDict [(VStr ''load'', VStr ''Y'')]] ''X''
     = Some (VDict [(VStr ''load'', VStr ''Y'')]) \<and>
   substitute [''X'' \<mapsto> VDict [(VStr ''load'', VStr ''Y'')]]
     (VDict [(VStr ''other'', VDict [(VStr ''load'', VStr ''missing'')]),
             (VStr ''load'', VStr ''X'')])
     = Inr (VDict [(VStr ''load'', VStr ''Y'')])"
proof -
  have h1: "map_of [(VStr ''other'', VDict [(VStr ''load'', VStr ''missing'')]),
              (VStr ''load'', VStr ''X'')] (VStr ''load'') = Some (VStr ''X'')"
    by simp
  have h2: "[''X'' \<mapsto> VDict [(VStr ''load'', VStr ''Y'')]] ''X''
              = Some (VDict [(VStr ''load'', VStr ''Y'')])"
    by simp
  from substitute_load_returns_entry
         [where entries = "[''X'' \<mapsto> VDict [(VStr ''load'', VStr ''Y'')]]", OF h1 h2] h1 h2
  show ?thesis by blast
qed

text \<open>
  C2. For every corpus \<open>e\<close>: \<^verbatim>\<open>substitute\<close> returns every node that is neither a mapping
  nor a list unchanged; on a mapping without the key \<^verbatim>\<open>"load"\<close> it returns \<open>r\<close> exactly
  when \<open>r\<close> is a mapping with the same keys in the same order whose values are the
  resolutions of the original values; on a list it returns \<open>r'\<close> exactly when \<open>r'\<close> is a
  list of the same length whose elements are the resolutions of the original elements, in
  order. (So it raises exactly when the resolution of a value or an element raises.)
\<close>

theorem substitute_structural:
  "((\<forall>kvs. a \<noteq> VDict kvs) \<and> (\<forall>xs. a \<noteq> VList xs) \<longrightarrow> substitute e a = Inr a) \<and>
   (map_of kvs (VStr ''load'') = None \<longrightarrow>
      (substitute e (VDict kvs) = Inr r \<longleftrightarrow>
         (\<exists>kvs'. r = VDict kvs' \<and> map fst kvs' = map fst kvs \<and>
            list_all2 (\<lambda>v v'. substitute e v = Inr v') (map snd kvs) (map snd kvs')))) \<and>
   (substitute e (VList xs) = Inr r' \<longleftrightarrow>
      (\<exists>ys. r' = VList ys \<and> list_all2 (\<lambda>x y. substitute e x = Inr y) xs ys))"
proof (intro conjI impI)
  assume "(\<forall>kvs. a \<noteq> VDict kvs) \<and> (\<forall>xs. a \<noteq> VList xs)"
  then show "substitute e a = Inr a" by (cases a) auto
next
  assume "map_of kvs (VStr ''load'') = None"
  then show "substitute e (VDict kvs) = Inr r \<longleftrightarrow>
         (\<exists>kvs'. r = VDict kvs' \<and> map fst kvs' = map fst kvs \<and>
            list_all2 (\<lambda>v v'. substitute e v = Inr v') (map snd kvs) (map snd kvs'))"
    by (auto simp: substitute_items_Inr [symmetric] split: sum.splits)
next
  show "substitute e (VList xs) = Inr r' \<longleftrightarrow>
      (\<exists>ys. r' = VList ys \<and> list_all2 (\<lambda>x y. substitute e x = Inr y) xs ys)"
    by (auto simp: substitute_elems_Inr [symmetric] split: sum.splits)
qed

theorem substitute_structural_witness:
  "map_of [(VStr ''a'', VDict [(VStr ''load'', VStr ''X'')]), (VStr ''b'', VStr ''s'')]
     (VStr ''load'') = None \<and>
   substitute [''X'' \<mapsto> VInt 3] (VStr ''s'') = Inr (VStr ''s'') \<and>
   substitute [''X'' \<mapsto> VInt 3]
     (VDict [(VStr ''a'', VDict [(VStr ''load'', VStr ''X'')]), (VStr ''b'', VStr ''s'')])
     = Inr (VDict [(VStr ''a'', VInt 3), (VStr ''b'', VStr ''s'')]) \<and>
   substitute [''X'' \<mapsto> VInt 3] (VList [VDict [(VStr ''load'', VStr ''X'')], VInt 1])
     = Inr (VList [VInt 3, VInt 1])"
  using substitute_structural
    [of "VStr ''s''" "[''X'' \<mapsto> VInt 3]"
        "[(VStr ''a'', VDict [(VStr ''load'', VStr ''X'')]), (VStr ''b'', VStr ''s'')]"
        "VDict [(VStr ''a'', VInt 3), (VStr ''b'', VStr ''s'')]"
        "[VDict [(VStr ''load'', VStr ''X'')], VInt 1]"
        "VList [VInt 3, VInt 1]"]
  by simp

section \<open>Properties of the corpus construction\<close>

lemma load_items_Inr:
  "load_items fn d res = Inr res' \<Longrightarrow>
     \<exists>new. res' = res @ new \<and> list_all2 loaded d new \<and>
           (distinct (map fst res) \<longrightarrow> distinct (map fst res'))"
proof (induction d arbitrary: res)
  case Nil
  then show ?case by simp
next
  case (Cons p d)
  obtain k v where p: "p = (k, v)" by (cases p)
  from Cons.prems obtain td where
    fresh: "k \<notin> fst ` set res" and td: "make_TestData k v = Inr td"
    and rest: "load_items fn d (res @ [(k, td)]) = Inr res'"
    by (auto simp: p split: if_splits sum.splits)
  from Cons.IH [OF rest] obtain new where
    new: "res' = (res @ [(k, td)]) @ new" "list_all2 loaded d new"
      "distinct (map fst (res @ [(k, td)])) \<longrightarrow> distinct (map fst res')"
    by blast
  have "res' = res @ ((k, td) # new)" using new(1) by simp
  moreover have "list_all2 loaded (p # d) ((k, td) # new)"
    using new(2) td by (simp add: p loaded_def)
  moreover have "distinct (map fst res) \<longrightarrow> distinct (map fst res')"
    using new(3) fresh by auto
  ultimately show ?case by blast
qed

lemma load_files_Inr:
  "load_files yamls res = Inr res' \<Longrightarrow>
     \<exists>new. res' = res @ new \<and> list_all2 loaded (concat (map snd yamls)) new \<and>
           (distinct (map fst res) \<longrightarrow> distinct (map fst res'))"
proof (induction yamls arbitrary: res)
  case Nil
  then show ?case by simp
next
  case (Cons f yamls)
  obtain fn d where f: "f = (fn, d)" by (cases f)
  from Cons.prems obtain mid where
    mid: "load_items fn d res = Inr mid" and rest: "load_files yamls mid = Inr res'"
    by (auto simp: f split: sum.splits)
  from load_items_Inr [OF mid] obtain new1 where
    n1: "mid = res @ new1" "list_all2 loaded d new1"
      "distinct (map fst res) \<longrightarrow> distinct (map fst mid)"
    by blast
  from Cons.IH [OF rest] obtain new2 where
    n2: "res' = mid @ new2" "list_all2 loaded (concat (map snd yamls)) new2"
      "distinct (map fst mid) \<longrightarrow> distinct (map fst res')"
    by blast
  have "res' = res @ (new1 @ new2)" using n1(1) n2(1) by simp
  moreover have "list_all2 loaded (concat (map snd (f # yamls))) (new1 @ new2)"
    using n1(2) n2(2) by (simp add: f list_all2_appendI)
  moreover have "distinct (map fst res) \<longrightarrow> distinct (map fst res')"
    using n1(3) n2(3) by blast
  ultimately show ?case by blast
qed

lemma loaded_keys: "list_all2 loaded d new \<Longrightarrow> map fst new = map fst d"
  by (induction rule: list_all2_induct) (auto simp: loaded_def)

lemma loaded_member:
  "list_all2 loaded d new \<Longrightarrow> (k, v) \<in> set d \<Longrightarrow>
     \<exists>td. (k, td) \<in> set new \<and> make_TestData k v = Inr td"
  by (induction rule: list_all2_induct) (auto simp: loaded_def)

lemma map_of_pop_other:
  "key \<noteq> key' \<Longrightarrow> map_of (filter (\<lambda>(k, _). k \<noteq> key') vv) key = map_of vv key"
  by (induction vv) auto

lemma make_TestData_data:
  "make_TestData k v = Inr td \<Longrightarrow> map_of v (VStr ''data'') = Some (data td)"
  by (auto simp: make_TestData_def pop_def Let_def map_of_pop_other
      split: option.splits if_splits sum.splits)

lemma substitute_all_keys:
  "substitute_all entries res = Inr res' \<Longrightarrow> map fst res' = map fst res"
  by (induction res arbitrary: res') (auto split: sum.splits)

lemma substitute_all_member:
  "substitute_all entries res = Inr res' \<Longrightarrow> (k, v) \<in> set res \<Longrightarrow>
     \<exists>a. substitute entries (data v) = Inr a \<and> (k, v\<lparr>data := a\<rparr>) \<in> set res'"
  by (induction res arbitrary: res') (auto split: sum.splits)

lemma entries_of_lookup:
  "distinct (map fst res) \<Longrightarrow> (k, td) \<in> set res \<Longrightarrow> entries_of res k = Some (data td)"
  by (simp add: entries_of_def map_of_map map_of_eq_Some_iff[THEN iffD2])

lemma load_items_append:
  "load_items fn (xs @ ys) res =
     (case load_items fn xs res of Inl e \<Rightarrow> Inl e | Inr mid \<Rightarrow> load_items fn ys mid)"
proof (induction xs arbitrary: res)
  case Nil
  then show ?case by simp
next
  case (Cons p xs)
  obtain k v where p: "p = (k, v)" by (cases p)
  show ?case
    by (cases "k \<in> fst ` set res"; cases "make_TestData k v") (simp_all add: p Cons.IH)
qed

lemma load_files_append:
  "load_files (xs @ ys) res =
     (case load_files xs res of Inl e \<Rightarrow> Inl e | Inr mid \<Rightarrow> load_files ys mid)"
proof (induction xs arbitrary: res)
  case Nil
  then show ?case by simp
next
  case (Cons f xs)
  obtain fn d where f: "f = (fn, d)" by (cases f)
  show ?case
    by (cases "load_items fn d res") (simp_all add: f Cons.IH)
qed

lemma load_files_snoc_items:
  "load_files (pre @ (fn, ipre @ rest) # post) res =
     (case load_files (pre @ [(fn, ipre)]) res of
        Inl e \<Rightarrow> Inl e
      | Inr mid \<Rightarrow> (case load_items fn rest mid of
                     Inl e \<Rightarrow> Inl e
                   | Inr mid' \<Rightarrow> load_files post mid'))"
  by (simp add: load_files_append load_items_append split: sum.splits)

lemmas corpus_eval =
  get_all_test_data_def make_TestData_def pop_def entries_of_def
  ALLOWED_TAGS_def ALLOWED_REQUIRES_def ALLOWED_PROPERTIES_def Let_def

lemma loaded_entries:
  "list_all2 loaded d new \<Longrightarrow>
     map_of (map (\<lambda>(k, v). (k, data v)) new) k =
       (case map_of d k of None \<Rightarrow> None | Some v \<Rightarrow> map_of v (VStr ''data''))"
proof (induction rule: list_all2_induct)
  case Nil
  then show ?case by simp
next
  case (Cons x xs y ys)
  obtain k0 v0 where x: "x = (k0, v0)" by (cases x)
  obtain k1 td where y: "y = (k1, td)" by (cases y)
  from Cons(1) have "k1 = k0" and "make_TestData k0 v0 = Inr td"
    by (simp_all add: loaded_def x y)
  then show ?case using Cons.IH make_TestData_data [of k0 v0 td]
    by (simp add: x y)
qed

lemma substitute_all_rel:
  "substitute_all entries res0 = Inr res \<Longrightarrow>
     list_all2 (\<lambda>ktd kr. fst kr = fst ktd \<and>
                  (\<exists>a. substitute entries (data (snd ktd)) = Inr a \<and>
                       snd kr = (snd ktd)\<lparr>data := a\<rparr>)) res0 res"
  by (induction res0 arbitrary: res) (auto split: sum.splits)

lemma corpus_is_one_substitution:
  assumes ok: "get_all_test_data yamls = Inr res"
  shows "list_all2
           (\<lambda>(k, v) (k', r). k' = k \<and>
              (\<exists>td a. make_TestData k v = Inr td \<and>
                      map_of v (VStr ''data'') = Some (data td) \<and>
                      substitute (raw_entries yamls) (data td) = Inr a \<and>
                      r = td\<lparr>data := a\<rparr>))
           (concat (map snd yamls)) res"
proof -
  from ok obtain res0 where
    res0: "load_files yamls [] = Inr res0"
    and res: "substitute_all (entries_of res0) res0 = Inr res"
    by (auto simp: get_all_test_data_def split: sum.splits)
  from load_files_Inr [OF res0] have
    all: "list_all2 loaded (concat (map snd yamls)) res0"
    by auto
  have ent: "entries_of res0 = raw_entries yamls"
    by (rule ext) (simp add: entries_of_def raw_entries_def loaded_entries [OF all])
  have step: "list_all2 (\<lambda>ktd kr. fst kr = fst ktd \<and>
                  (\<exists>a. substitute (raw_entries yamls) (data (snd ktd)) = Inr a \<and>
                       snd kr = (snd ktd)\<lparr>data := a\<rparr>)) res0 res"
    using substitute_all_rel [OF res] by (simp add: ent)
  show ?thesis
  proof (rule list_all2_trans [OF _ all step])
    fix kv ktd kr
    assume l: "loaded kv ktd"
      and s: "fst kr = fst ktd \<and>
                  (\<exists>a. substitute (raw_entries yamls) (data (snd ktd)) = Inr a \<and>
                       snd kr = (snd ktd)\<lparr>data := a\<rparr>)"
    obtain k v where kv: "kv = (k, v)" by (cases kv)
    obtain k' r where kr: "kr = (k', r)" by (cases kr)
    from l have mk: "make_TestData k v = Inr (snd ktd)" and fk: "fst ktd = k"
      by (simp_all add: loaded_def kv)
    from make_TestData_data [OF mk] mk fk s
    show "(case kv of (k, v) \<Rightarrow> \<lambda>(k', r). k' = k \<and>
              (\<exists>td a. make_TestData k v = Inr td \<and>
                      map_of v (VStr ''data'') = Some (data td) \<and>
                      substitute (raw_entries yamls) (data td) = Inr a \<and>
                      r = td\<lparr>data := a\<rparr>)) kr"
      by (auto simp: kv kr)
  qed
qed

lemma corpus_reference_unresolved:
  assumes ok: "get_all_test_data yamls = Inr res"
    and A: "(fA, dA) \<in> set yamls" "(A, vA) \<in> set dA"
    and dataA: "map_of vA (VStr ''data'') = Some (VDict a)"
    and ref: "map_of a (VStr ''load'') = Some (VStr B)"
    and B: "(fB, dB) \<in> set yamls" "(B, vB) \<in> set dB"
    and dataB: "map_of vB (VStr ''data'') = Some b"
  shows "\<exists>r. map_of res A = Some r \<and> data r = b"
proof -
  from ok obtain res0 where
    res0: "load_files yamls [] = Inr res0"
    and res: "substitute_all (entries_of res0) res0 = Inr res"
    by (auto simp: get_all_test_data_def split: sum.splits)
  from load_files_Inr [OF res0] have
    all: "list_all2 loaded (concat (map snd yamls)) res0" and dist: "distinct (map fst res0)"
    by auto
  have "(A, vA) \<in> set (concat (map snd yamls))" using A by force
  from loaded_member [OF all this] obtain tdA where
    tdA: "(A, tdA) \<in> set res0" "make_TestData A vA = Inr tdA" by blast
  have "(B, vB) \<in> set (concat (map snd yamls))" using B by force
  from loaded_member [OF all this] obtain tdB where
    tdB: "(B, tdB) \<in> set res0" "make_TestData B vB = Inr tdB" by blast
  have "data tdA = VDict a" using make_TestData_data [OF tdA(2)] dataA by simp
  moreover have "data tdB = b" using make_TestData_data [OF tdB(2)] dataB by simp
  moreover have "entries_of res0 B = Some (data tdB)"
    using entries_of_lookup [OF dist tdB(1)] .
  ultimately have sub: "substitute (entries_of res0) (data tdA) = Inr b"
    using substitute_load_entry [OF ref] by simp
  from substitute_all_member [OF res tdA(1)] sub
  have mem: "(A, tdA\<lparr>data := b\<rparr>) \<in> set res" by auto
  have "distinct (map fst res)" using substitute_all_keys [OF res] dist by simp
  then have "map_of res A = Some (tdA\<lparr>data := b\<rparr>)" using mem by simp
  then show ?thesis by simp
qed

text \<open>
  C3. Each record's data is resolved exactly once, against the unresolved data of every
  record. Whenever \<^verbatim>\<open>get_all_test_data\<close> returns the corpus \<open>res\<close>, the corpus holds,
  in reading order, one record for each raw record \<open>(k, v)\<close> of the files: the record
  \<open>td\<close> that the loop body makes of \<open>v\<close>, with its data (the raw \<^verbatim>\<open>data\<close> field of \<open>v\<close>)
  replaced by one application of \<^verbatim>\<open>substitute\<close> against \<open>raw_entries yamls\<close>, the raw
  data of all records; this holds for references at any depth. In particular, when the
  raw data of \<open>A\<close> is a node whose \<^verbatim>\<open>"load"\<close> names \<open>B\<close> and the raw data of \<open>B\<close> is \<open>b\<close>,
  the data of \<open>A\<close> in the corpus is \<open>b\<close> itself, with every \<^verbatim>\<open>{"load": C}\<close> node that \<open>b\<close>
  contains still unresolved.
\<close>

theorem load_corpus_resolves_once:
  assumes ok: "get_all_test_data yamls = Inr res"
  shows "list_all2
           (\<lambda>(k, v) (k', r). k' = k \<and>
              (\<exists>td a. make_TestData k v = Inr td \<and>
                      map_of v (VStr ''data'') = Some (data td) \<and>
                      substitute (raw_entries yamls) (data td) = Inr a \<and>
                      r = td\<lparr>data := a\<rparr>))
           (concat (map snd yamls)) res \<and>
         ((fA, dA) \<in> set yamls \<and> (A, vA) \<in> set dA \<and>
          map_of vA (VStr ''data'') = Some (VDict a) \<and>
          map_of a (VStr ''load'') = Some (VStr B) \<and>
          (fB, dB) \<in> set yamls \<and> (B, vB) \<in> set dB \<and>
          map_of vB (VStr ''data'') = Some b \<longrightarrow>
          (\<exists>r. map_of res A = Some r \<and> data r = b))"
  using corpus_is_one_substitution [OF ok] corpus_reference_unresolved [OF ok]
  by blast

theorem load_corpus_resolves_once_witness:
  "get_all_test_data
     [(''a.yaml'', [(''A'', [(VStr ''data'', VList [VDict [(VStr ''load'', VStr ''B'')]])]),
                    (''B'', [(VStr ''data'', VDict [(VStr ''load'', VStr ''C'')])])]),
      (''b.yaml'', [(''C'', [(VStr ''data'', VInt 2)])])]
   = Inr [(''A'', \<lparr>tags = VDict [], requires = VDict [],
                  data = VList [VDict [(VStr ''load'', VStr ''C'')]], properties = VDict []\<rparr>),
          (''B'', \<lparr>tags = VDict [], requires = VDict [],
                  data = VInt 2, properties = VDict []\<rparr>),
          (''C'', \<lparr>tags = VDict [], requires = VDict [],
                  data = VInt 2, properties = VDict []\<rparr>)] \<and>
   substitute
     (raw_entries
        [(''a.yaml'', [(''A'', [(VStr ''data'', VList [VDict [(VStr ''load'', VStr ''B'')]])]),
                       (''B'', [(VStr ''data'', VDict [(VStr ''load'', VStr ''C'')])])]),
         (''b.yaml'', [(''C'', [(VStr ''data'', VInt 2)])])])
     (VList [VDict [(VStr ''load'', VStr ''B'')]])
   = Inr (VList [VDict [(VStr ''load'', VStr ''C'')]]) \<and>
   (\<exists>r. map_of
          [(''A'', \<lparr>tags = VDict [], requires = VDict [],
                  data = VList [VDict [(VStr ''load'', VStr ''C'')]], properties = VDict []\<rparr>),
           (''B'', \<lparr>tags = VDict [], requires = VDict [],
                  data = VInt 2, properties = VDict []\<rparr>),
           (''C'', \<lparr>tags = VDict [], requires = VDict [],
                  data = VInt 2, properties = VDict []\<rparr>)] ''B'' = Some r \<and>
        data r = VInt 2)"
proof -
  let ?dA = "[(''A'', [(VStr ''data'', VList [VDict [(VStr ''load'', VStr ''B'')]])]),
              (''B'', [(VStr ''data'', VDict [(VStr ''load'', VStr ''C'')])])]"
  let ?Y = "[(''a.yaml'', ?dA), (''b.yaml'', [(''C'', [(VStr ''data'', VInt 2)])])]"
  let ?R = "[(''A'', \<lparr>tags = VDict [], requires = VDict [],
                  data = VList [VDict [(VStr ''load'', VStr ''C'')]], properties = VDict []\<rparr>),
          (''B'', \<lparr>tags = VDict [], requires = VDict [],
                  data = VInt 2, properties = VDict []\<rparr>),
          (''C'', \<lparr>tags = VDict [], requires = VDict [],
                  data = VInt 2, properties = VDict []\<rparr>)]"
  have ok: "get_all_test_data ?Y = Inr ?R"
    by (simp add: corpus_eval)
  have mk: "make_TestData ''A'' [(VStr ''data'', VList [VDict [(VStr ''load'', VStr ''B'')]])]
              = Inr \<lparr>tags = VDict [], requires = VDict [],
                     data = VList [VDict [(VStr ''load'', VStr ''B'')]], properties = VDict []\<rparr>"
    by (simp add: corpus_eval)
  have hyp: "(''a.yaml'', ?dA) \<in> set ?Y \<and>
             (''B'', [(VStr ''data'', VDict [(VStr ''load'', VStr ''C'')])]) \<in> set ?dA \<and>
             map_of [(VStr ''data'', VDict [(VStr ''load'', VStr ''C'')])] (VStr ''data'')
               = Some (VDict [(VStr ''load'', VStr ''C'')]) \<and>
             map_of [(VStr ''load'', VStr ''C'')] (VStr ''load'') = Some (VStr ''C'') \<and>
             (''b.yaml'', [(''C'', [(VStr ''data'', VInt 2)])]) \<in> set ?Y \<and>
             (''C'', [(VStr ''data'', VInt 2)]) \<in> set [(''C'', [(VStr ''data'', VInt 2)])] \<and>
             map_of [(VStr ''data'', VInt 2)] (VStr ''data'') = Some (VInt 2)"
    by simp
  from load_corpus_resolves_once [OF ok, THEN conjunct1] mk
  have sub: "substitute (raw_entries ?Y) (VList [VDict [(VStr ''load'', VStr ''B'')]])
               = Inr (VList [VDict [(VStr ''load'', VStr ''C'')]])"
    by auto
  from load_corpus_resolves_once [OF ok, THEN conjunct2, THEN mp, OF hyp]
  have ref: "\<exists>r. map_of ?R ''B'' = Some r \<and> data r = VInt 2" .
  from ok sub ref show ?thesis by blast
qed



lemma load_duplicate_error:
  assumes prefix: "load_files (pre @ [(fn, ipre)]) [] = Inr res0"
    and dup: "k \<in> fst ` set res0"
  shows "get_all_test_data (pre @ (fn, ipre @ (k, v) # ipost) # post) = Inl (DuplicateKey k fn)"
  using assms by (simp add: get_all_test_data_def load_files_snoc_items)

lemma load_files_keys:
  "load_files yamls [] = Inr res0 \<Longrightarrow> map fst res0 = map fst (concat (map snd yamls))"
  using load_files_Inr [of yamls "[]" res0] by (auto dest: loaded_keys)

lemma load_files_distinct:
  "load_files yamls [] = Inr res0 \<Longrightarrow> distinct (map fst (concat (map snd yamls)))"
  using load_files_Inr [of yamls "[]" res0] by (auto dest: loaded_keys)

text \<open>
  C5, as the code has it. Let the key \<open>k\<close> occur in two different files. Then
  \<^verbatim>\<open>get_all_test_data\<close> raises and returns no corpus, so neither occurrence wins. When
  moreover the files before \<open>fn\<close> and the items of \<open>fn\<close> before \<open>(k, v)\<close> are all accepted,
  \<open>k\<close> occurring in one of the files before \<open>fn\<close>, the error is the duplicate-key error
  naming \<open>k\<close> and the file \<open>fn\<close> of the later occurrence, whatever the later record \<open>v\<close>
  and the rest of the input are. (The records are checked in reading order, so a record
  refused before the later occurrence is reached raises its own error instead.)
\<close>

theorem duplicate_key_error:
  "(k \<in> fst ` set (concat (map snd pre)) \<and> k \<in> fst ` set d \<longrightarrow>
      (\<exists>e. get_all_test_data (pre @ (fn, d) # post) = Inl e)) \<and>
   (load_files (pre @ [(fn, ipre)]) [] = Inr acc \<and> k \<in> fst ` set (concat (map snd pre)) \<longrightarrow>
      get_all_test_data (pre @ (fn, ipre @ (k, v) # ipost) # post) = Inl (DuplicateKey k fn))"
proof (intro conjI impI)
  assume h: "k \<in> fst ` set (concat (map snd pre)) \<and> k \<in> fst ` set d"
  have a: "k \<in> set (map fst (concat (map snd pre)))" using h by simp
  have b: "k \<in> set (map fst d @ map fst (concat (map snd post)))" using h by simp
  have eq: "map fst (concat (map snd (pre @ (fn, d) # post))) =
              map fst (concat (map snd pre)) @ (map fst d @ map fst (concat (map snd post)))"
    by simp
  have nd: "\<not> distinct (map fst (concat (map snd (pre @ (fn, d) # post))))"
  proof
    assume "distinct (map fst (concat (map snd (pre @ (fn, d) # post))))"
    then have "set (map fst (concat (map snd pre))) \<inter>
                 set (map fst d @ map fst (concat (map snd post))) = {}"
      by (simp only: eq distinct_append)
    with a b show False by blast
  qed
  show "\<exists>e. get_all_test_data (pre @ (fn, d) # post) = Inl e"
  proof (cases "load_files (pre @ (fn, d) # post) []")
    case (Inl e)
    then show ?thesis by (simp add: get_all_test_data_def)
  next
    case (Inr res1)
    from load_files_distinct [OF this] nd show ?thesis by simp
  qed
next
  assume h: "load_files (pre @ [(fn, ipre)]) [] = Inr acc \<and> k \<in> fst ` set (concat (map snd pre))"
  then have "set (map fst acc) = set (map fst (concat (map snd (pre @ [(fn, ipre)]))))"
    using load_files_keys [of "pre @ [(fn, ipre)]" acc] by simp
  then have "k \<in> fst ` set acc" using h by auto
  with h show "get_all_test_data (pre @ (fn, ipre @ (k, v) # ipost) # post) = Inl (DuplicateKey k fn)"
    by (simp add: load_duplicate_error)
qed

theorem duplicate_key_error_witness:
  "load_files ([(''a.yaml'', [(''a'', [(VStr ''data'', VInt 1)])])] @ [(''b.yaml'', [])]) []
     = Inr [(''a'', \<lparr>tags = VDict [], requires = VDict [], data = VInt 1, properties = VDict []\<rparr>)] \<and>
   ''a'' \<in> fst ` set (concat (map snd [(''a.yaml'', [(''a'', [(VStr ''data'', VInt 1)])])])) \<and>
   ''a'' \<in> fst ` set [(''a'', [(VStr ''data'', VInt 2)])] \<and>
   get_all_test_data
     [(''a.yaml'', [(''a'', [(VStr ''data'', VInt 1)])]),
      (''b.yaml'', [(''a'', [(VStr ''data'', VInt 2)])])]
     = Inl (DuplicateKey ''a'' ''b.yaml'')"
proof -
  have h1: "load_files ([(''a.yaml'', [(''a'', [(VStr ''data'', VInt 1)])])] @ [(''b.yaml'', [])]) []
     = Inr [(''a'', \<lparr>tags = VDict [], requires = VDict [], data = VInt 1, properties = VDict []\<rparr>)]"
    by (simp add: corpus_eval)
  have h2: "''a'' \<in> fst ` set (concat (map snd [(''a.yaml'', [(''a'', [(VStr ''data'', VInt 1)])])]))"
    by simp
  have h3: "''a'' \<in> fst ` set [(''a'', [(VStr ''data'', VInt 2)])]"
    by simp
  from duplicate_key_error
    [where k = "''a''" and pre = "[(''a.yaml'', [(''a'', [(VStr ''data'', VInt 1)])])]"
       and d = "[(''a'', [(VStr ''data'', VInt 2)])]" and fn = "''b.yaml''" and post = "[]"
       and ipre = "[]" and v = "[(VStr ''data'', VInt 2)]" and ipost = "[]"
       and acc = "[(''a'', \<lparr>tags = VDict [], requires = VDict [], data = VInt 1,
                               properties = VDict []\<rparr>)]"] h1 h2 h3
  show ?thesis by simp
qed

text \<open>
  The claim C5 as stated fails: the key \<^verbatim>\<open>a\<close> occurs in both files, but the record
  \<^verbatim>\<open>b\<close> of the first file has no \<^verbatim>\<open>data\<close> and is refused first; the error raised names
  \<^verbatim>\<open>b\<close>, not the duplicated key.
\<close>

theorem duplicate_key_error_counterexample:
  "get_all_test_data
     [(''a.yaml'', [(''a'', [(VStr ''data'', VInt 1)]), (''b'', [])]),
      (''b.yaml'', [(''a'', [(VStr ''data'', VInt 2)])])]
     = Inl (MissingData ''b'' [])"
  by (simp add: corpus_eval)




section \<open>Properties of \<^verbatim>\<open>filter_reqs\<close>\<close>

lemma filter_reqs_mappings:
  "\<forall>(k, v) \<in> set d. \<exists>kvs. requires v = VDict kvs \<Longrightarrow>
     filter_reqs d req =
       Inr (filter (\<lambda>(k, v). \<exists>kvs. requires v = VDict kvs \<and> fst ` set kvs = {VStr req}) d)"
proof (induction d)
  case Nil
  then show ?case by simp
next
  case (Cons p d)
  obtain k v where p: "p = (k, v)" by (cases p)
  from Cons.prems obtain kvs where kvs: "requires v = VDict kvs" by (auto simp: p)
  have rest: "filter_reqs d req =
       Inr (filter (\<lambda>(k, v). \<exists>kvs. requires v = VDict kvs \<and> fst ` set kvs = {VStr req}) d)"
    using Cons by simp
  show ?case by (simp add: p kvs rest)
qed

text \<open>
  C4. For every corpus \<open>d\<close> whose records have a mapping as \<^verbatim>\<open>requires\<close> (the declared
  type of the field) and every requirement \<open>r\<close>, \<^verbatim>\<open>filter_reqs\<close> returns exactly the
  records of \<open>d\<close>, in order, whose \<^verbatim>\<open>requires\<close> key set is the singleton \<open>{r}\<close>: a record
  with no key, or with \<open>r\<close> and another key, is left out, and every record with exactly
  \<open>{r}\<close> is kept.
\<close>

theorem filter_reqs_exact:
  assumes "\<forall>(k, v) \<in> set d. \<exists>kvs. requires v = VDict kvs"
  shows "filter_reqs d r =
           Inr (filter (\<lambda>(k, v). \<exists>kvs. requires v = VDict kvs \<and> fst ` set kvs = {VStr r}) d)"
  using assms by (rule filter_reqs_mappings)

theorem filter_reqs_exact_witness:
  "filter_reqs
     [(''none'', \<lparr>tags = VDict [], requires = VDict [], data = VInt 0, properties = VDict []\<rparr>),
      (''one'', \<lparr>tags = VDict [], requires = VDict [(VStr ''set_union'', VBool True)],
                 data = VInt 1, properties = VDict []\<rparr>),
      (''two'', \<lparr>tags = VDict [],
                 requires = VDict [(VStr ''set_union'', VBool True), (VStr ''poset_sum'', VBool True)],
                 data = VInt 2, properties = VDict []\<rparr>)]
     ''set_union''
   = Inr [(''one'', \<lparr>tags = VDict [], requires = VDict [(VStr ''set_union'', VBool True)],
                     data = VInt 1, properties = VDict []\<rparr>)]"
proof -
  let ?d = "[(''none'', \<lparr>tags = VDict [], requires = VDict [], data = VInt 0, properties = VDict []\<rparr>),
      (''one'', \<lparr>tags = VDict [], requires = VDict [(VStr ''set_union'', VBool True)],
                 data = VInt 1, properties = VDict []\<rparr>),
      (''two'', \<lparr>tags = VDict [],
                 requires = VDict [(VStr ''set_union'', VBool True), (VStr ''poset_sum'', VBool True)],
                 data = VInt 2, properties = VDict []\<rparr>)]"
  have typed: "\<forall>(k, v) \<in> set ?d. \<exists>kvs. requires v = VDict kvs" by simp
  from filter_reqs_exact [OF typed, of "''set_union''"] show ?thesis by simp
qed

lemma filter_reqs_revalue:
  "\<forall>(k, v) \<in> set d. \<exists>kvs. requires v = VDict kvs \<Longrightarrow> filter_reqs d r = Inr res \<Longrightarrow>
     filter_reqs (map (\<lambda>(k, v). (k, v\<lparr>requires := revalue f (requires v)\<rparr>)) d) r
       = Inr (map (\<lambda>(k, v). (k, v\<lparr>requires := revalue f (requires v)\<rparr>)) res)"
proof (induction d arbitrary: res)
  case Nil
  then show ?case by simp
next
  case (Cons p d)
  obtain k v where p: "p = (k, v)" by (cases p)
  from Cons.prems(1) obtain kvs where kvs: "requires v = VDict kvs" by (auto simp: p)
  from Cons.prems(2) obtain rest where
    rest: "filter_reqs d r = Inr rest"
    and res: "res = (if fst ` set kvs = {VStr r} then (k, v) # rest else rest)"
    by (auto simp: p kvs split: sum.splits)
  have ih: "filter_reqs (map (\<lambda>(k, v). (k, v\<lparr>requires := revalue f (requires v)\<rparr>)) d) r
       = Inr (map (\<lambda>(k, v). (k, v\<lparr>requires := revalue f (requires v)\<rparr>)) rest)"
    using Cons.IH [OF _ rest] Cons.prems(1) by simp
  have keys: "(\<lambda>x. fst (case x of (key, b) \<Rightarrow> (key, f key b))) ` set kvs = fst ` set kvs"
    by (rule image_cong) auto
  show ?case by (simp add: p kvs ih res keys image_image)
qed

text \<open>
  C9. \<^verbatim>\<open>filter_reqs\<close> selects by the key set of \<^verbatim>\<open>requires\<close> alone and ignores the
  values. In every corpus \<open>d\<close> (with mappings as \<^verbatim>\<open>requires\<close>) and for every requirement
  \<open>r\<close> it returns a result \<open>res\<close> such that: a record is in \<open>res\<close> exactly when it is in \<open>d\<close>
  and the key set of its \<^verbatim>\<open>requires\<close> is \<open>{r}\<close>; a record whose \<^verbatim>\<open>requires\<close> is
  \<open>{r: b}\<close> is in \<open>res\<close> whatever the value \<open>b\<close> is, \<^verbatim>\<open>False\<close> as well as \<^verbatim>\<open>True\<close>; and
  replacing the values of all the \<^verbatim>\<open>requires\<close> mappings in any way \<open>f\<close> selects the same
  records (those of \<open>res\<close>, with their values replaced).
\<close>

theorem filter_reqs_ignores_values:
  assumes typed: "\<forall>(k, v) \<in> set d. \<exists>kvs. requires v = VDict kvs"
  shows "\<exists>res. filter_reqs d r = Inr res \<and>
           (\<forall>k v. (k, v) \<in> set res \<longleftrightarrow>
                    (k, v) \<in> set d \<and> (\<exists>kvs. requires v = VDict kvs \<and> fst ` set kvs = {VStr r})) \<and>
           (\<forall>k v b. (k, v) \<in> set d \<and> requires v = VDict [(VStr r, b)] \<longrightarrow> (k, v) \<in> set res) \<and>
           (\<forall>f. filter_reqs (map (\<lambda>(k, v). (k, v\<lparr>requires := revalue f (requires v)\<rparr>)) d) r
                  = Inr (map (\<lambda>(k, v). (k, v\<lparr>requires := revalue f (requires v)\<rparr>)) res))"
proof -
  let ?res = "filter (\<lambda>(k, v). \<exists>kvs. requires v = VDict kvs \<and> fst ` set kvs = {VStr r}) d"
  have run: "filter_reqs d r = Inr ?res" using typed by (rule filter_reqs_mappings)
  have "\<forall>k v. (k, v) \<in> set ?res \<longleftrightarrow>
           (k, v) \<in> set d \<and> (\<exists>kvs. requires v = VDict kvs \<and> fst ` set kvs = {VStr r})"
    by auto
  moreover have "\<forall>k v b. (k, v) \<in> set d \<and> requires v = VDict [(VStr r, b)] \<longrightarrow> (k, v) \<in> set ?res"
    by auto
  moreover have "\<forall>f. filter_reqs (map (\<lambda>(k, v). (k, v\<lparr>requires := revalue f (requires v)\<rparr>)) d) r
                  = Inr (map (\<lambda>(k, v). (k, v\<lparr>requires := revalue f (requires v)\<rparr>)) ?res)"
    using filter_reqs_revalue [OF typed run] by blast
  ultimately show ?thesis using run by blast
qed

theorem filter_reqs_ignores_values_witness:
  "filter_reqs
     [(''e'', \<lparr>tags = VDict [], requires = VDict [], data = VInt 0, properties = VDict []\<rparr>),
      (''f'', \<lparr>tags = VDict [], requires = VDict [(VStr ''set_union'', VBool False)],
               data = VInt 1, properties = VDict []\<rparr>),
      (''t'', \<lparr>tags = VDict [], requires = VDict [(VStr ''set_union'', VBool True)],
               data = VInt 2, properties = VDict []\<rparr>)]
     ''set_union''
   = Inr [(''f'', \<lparr>tags = VDict [], requires = VDict [(VStr ''set_union'', VBool False)],
                   data = VInt 1, properties = VDict []\<rparr>),
          (''t'', \<lparr>tags = VDict [], requires = VDict [(VStr ''set_union'', VBool True)],
                   data = VInt 2, properties = VDict []\<rparr>)] \<and>
   (\<exists>res. filter_reqs
     [(''e'', \<lparr>tags = VDict [], requires = VDict [], data = VInt 0, properties = VDict []\<rparr>),
      (''f'', \<lparr>tags = VDict [], requires = VDict [(VStr ''set_union'', VBool False)],
               data = VInt 1, properties = VDict []\<rparr>),
      (''t'', \<lparr>tags = VDict [], requires = VDict [(VStr ''set_union'', VBool True)],
               data = VInt 2, properties = VDict []\<rparr>)]
     ''set_union'' = Inr res \<and>
     (''f'', \<lparr>tags = VDict [], requires = VDict [(VStr ''set_union'', VBool False)],
              data = VInt 1, properties = VDict []\<rparr>) \<in> set res \<and>
     (''e'', \<lparr>tags = VDict [], requires = VDict [], data = VInt 0, properties = VDict []\<rparr>)
       \<notin> set res)"
proof -
  let ?e = "\<lparr>tags = VDict [], requires = VDict [], data = VInt 0, properties = VDict []\<rparr>"
  let ?f = "\<lparr>tags = VDict [], requires = VDict [(VStr ''set_union'', VBool False)],
              data = VInt 1, properties = VDict []\<rparr>"
  let ?t = "\<lparr>tags = VDict [], requires = VDict [(VStr ''set_union'', VBool True)],
              data = VInt 2, properties = VDict []\<rparr>"
  let ?d = "[(''e'', ?e), (''f'', ?f), (''t'', ?t)]"
  have typed: "\<forall>(k, v) \<in> set ?d. \<exists>kvs. requires v = VDict kvs" by simp
  have run: "filter_reqs ?d ''set_union'' = Inr [(''f'', ?f), (''t'', ?t)]" by simp
  from filter_reqs_ignores_values [OF typed, of "''set_union''"] obtain res where
    res: "filter_reqs ?d ''set_union'' = Inr res"
    and iff: "\<forall>k v. (k, v) \<in> set res \<longleftrightarrow>
                (k, v) \<in> set ?d \<and>
                (\<exists>kvs. requires v = VDict kvs \<and> fst ` set kvs = {VStr ''set_union''})"
    by blast
  have "(''f'', ?f) \<in> set res" using iff by simp
  moreover have "(''e'', ?e) \<notin> set res" using iff by simp
  ultimately show ?thesis using run res by blast
qed

section \<open>Properties of the output check and of the verbs\<close>

text \<open>
  C7. For every tuple passed to \<^verbatim>\<open>check_good_output\<close>, exactly one failure is added to
  the test context, and it is the one that advises lists instead of tuples, not the one
  about a disallowed datatype; the elements \<open>xs\<close> of the tuple are not looked at, whatever
  they are.
\<close>

theorem check_good_output_tuple:
  "check_good_output tc (VTuple xs) = fail tc (TuplesNotSerializable (VTuple xs)) \<and>
   failures (check_good_output tc (VTuple xs)) =
     failures tc @ [TuplesNotSerializable (VTuple xs)]"
  by (simp add: fail_def)

text \<open>
  C8. Whenever the loader raises an exception that is a \<^verbatim>\<open>NotImplementedError\<close>,
  \<^verbatim>\<open>loadit_\<close> raises that same exception: the test context is unchanged (no failure is
  recorded) and no \<^verbatim>\<open>ImplementationFail\<close> is raised.
\<close>

theorem loadit_unimplemented_propagates:
  assumes "load dat = Inl e" and "isinstance e ''NotImplementedError''"
  shows "loadit tc LN load dat KN K = (tc, Inl (Propagated e))"
  using assms by (simp add: loadit_def)

theorem loadit_unimplemented_propagates_witness:
  "isinstance (Exn ''NotImplementedError'' [''RuntimeError'', ''Exception'']) ''NotImplementedError'' \<and>
   loadit \<lparr>failures = []\<rparr> ''MyLoader''
     (\<lambda>d. Inl (Exn ''NotImplementedError'' [''RuntimeError'', ''Exception''])) (VInt 1)
     ''FiniteSet'' (\<lambda>x::string. True)
   = (\<lparr>failures = []\<rparr>, Inl (Propagated (Exn ''NotImplementedError'' [''RuntimeError'', ''Exception''])))"
proof -
  let ?e = "Exn ''NotImplementedError'' [''RuntimeError'', ''Exception'']"
  have h1: "(\<lambda>d::val. (Inl ?e :: exn + string)) (VInt 1) = Inl ?e" by simp
  have h2: "isinstance ?e ''NotImplementedError''" by (simp add: isinstance_def)
  from loadit_unimplemented_propagates
         [where load = "\<lambda>d::val. (Inl ?e :: exn + string)"
            and tc = "\<lparr>failures = []\<rparr>" and LN = "''MyLoader''" and KN = "''FiniteSet''"
            and K = "\<lambda>x::string. True", OF h1 h2] h2
  show ?thesis by simp
qed

text \<open>
  C10. Whenever the loader raises an exception that is not a \<^verbatim>\<open>NotImplementedError\<close>,
  \<^verbatim>\<open>loadit_\<close> records one failure and raises \<^verbatim>\<open>ImplementationFail\<close> caused by it,
  also when the exception is not an \<^verbatim>\<open>Exception\<close> (\<^verbatim>\<open>KeyboardInterrupt\<close>,
  \<^verbatim>\<open>SystemExit\<close>). \<^verbatim>\<open>dumpit_\<close> converts the exceptions of the saver that are an
  \<^verbatim>\<open>Exception\<close> in the same way, and lets every other one through as it is, with the
  test context unchanged.
\<close>

theorem loadit_converts_dumpit_propagates:
  "(load dat = Inl e \<and> \<not> isinstance e ''NotImplementedError'' \<longrightarrow>
      loadit tc LN load dat KN K =
        (fail tc (if isinstance e ''InvalidFormat'' then LoadThrewInvalidFormat LN dat
                  else LoadThrew LN (cls e) dat),
         Inl (ImplementationFail (Some e)))) \<and>
   (save ob = Inl e' \<and> \<not> isinstance e' ''Exception'' \<longrightarrow>
      dumpit tc' SN save ob = (tc', Inl (Propagated e'))) \<and>
   (save ob = Inl e' \<and> isinstance e' ''Exception'' \<longrightarrow>
      dumpit tc' SN save ob = (fail tc' (SaveRaised SN ob), Inl (ImplementationFail (Some e'))))"
  by (auto simp: loadit_def dumpit_def isinstance_def)

theorem loadit_converts_dumpit_propagates_witness:
  "\<not> isinstance (Exn ''KeyboardInterrupt'' []) ''NotImplementedError'' \<and>
   \<not> isinstance (Exn ''KeyboardInterrupt'' []) ''Exception'' \<and>
   isinstance (Exn ''ValueError'' [''Exception'']) ''Exception'' \<and>
   loadit \<lparr>failures = []\<rparr> ''MyLoader'' (\<lambda>d. Inl (Exn ''KeyboardInterrupt'' [])) (VInt 1)
     ''FiniteSet'' (\<lambda>x::string. True)
   = (\<lparr>failures = [LoadThrew ''MyLoader'' ''KeyboardInterrupt'' (VInt 1)]\<rparr>,
      Inl (ImplementationFail (Some (Exn ''KeyboardInterrupt'' [])))) \<and>
   dumpit \<lparr>failures = []\<rparr> ''MySaver'' (\<lambda>x. Inl (Exn ''KeyboardInterrupt'' [])) ''ob''
   = (\<lparr>failures = []\<rparr>, Inl (Propagated (Exn ''KeyboardInterrupt'' []))) \<and>
   dumpit \<lparr>failures = []\<rparr> ''MySaver'' (\<lambda>x. Inl (Exn ''ValueError'' [''Exception''])) ''ob''
   = (\<lparr>failures = [SaveRaised ''MySaver'' ''ob'']\<rparr>,
      Inl (ImplementationFail (Some (Exn ''ValueError'' [''Exception'']))))"
proof -
  let ?ki = "Exn ''KeyboardInterrupt'' []"
  let ?ve = "Exn ''ValueError'' [''Exception'']"
  have n1: "\<not> isinstance ?ki ''NotImplementedError''" by (simp add: isinstance_def)
  have n2: "\<not> isinstance ?ki ''Exception''" by (simp add: isinstance_def)
  have n3: "isinstance ?ve ''Exception''" by (simp add: isinstance_def)
  have n4: "\<not> isinstance ?ki ''InvalidFormat''" by (simp add: isinstance_def)
  from loadit_converts_dumpit_propagates
         [where load = "\<lambda>d::val. (Inl ?ki :: exn + string)" and dat = "VInt 1" and e = ?ki
            and tc = "\<lparr>failures = []\<rparr>" and LN = "''MyLoader''" and KN = "''FiniteSet''"
            and K = "\<lambda>x::string. True"
            and save = "\<lambda>x::string. (Inl ?ki :: exn + val)" and ob = "''ob''" and e' = ?ki
            and tc' = "\<lparr>failures = []\<rparr>" and SN = "''MySaver''"]
       loadit_converts_dumpit_propagates
         [where save = "\<lambda>x::string. (Inl ?ve :: exn + val)" and ob = "''ob''" and e' = ?ve
            and tc' = "\<lparr>failures = []\<rparr>" and SN = "''MySaver''"
            and load = "\<lambda>d::val. (Inl ?ki :: exn + string)" and dat = "VInt 1" and e = ?ki
            and tc = "\<lparr>failures = []\<rparr>" and LN = "''MyLoader''" and KN = "''FiniteSet''"
            and K = "\<lambda>x::string. True"]
       n1 n2 n3 n4
  show ?thesis by (simp add: fail_def)
qed

end
